theory Spec2Isabelle
  imports Complex_Main "HOL-Library.AList" "HOL-Library.Log_Nat"
begin

section \<open>Univariate feature kernels of mne-features (\<open>mne_features/univariate.py\<close>)\<close>

text \<open>
  A signal matrix (\<open>ndarray\<close> of shape \<open>(n_channels, n_times)\<close>) is a list of rows, one
  row per channel. Array entries are IEEE doubles in the source; they are idealised here
  as real numbers, so every statement below is about the exact arithmetic that the
  floating-point code approximates. Where NumPy would produce \<open>nan\<close> or \<open>inf\<close> (a division
  by zero, a logarithm of zero) HOL's total functions return a fixed value instead; the
  theorems say so in their hypotheses where it matters. Where the source raises an
  exception the model returns the error as a value.
\<close>

type_synonym signal = "real list"
type_synonym matrix = "real list list"

datatype error = ValueError | IndexError | ZeroDivisionError

subsection \<open>NumPy reductions and element-wise operations along the last axis\<close>

definition np_sum :: "signal \<Rightarrow> real" where
  "np_sum xs = sum_list xs"

definition np_mean :: "signal \<Rightarrow> real" where
  "np_mean xs = np_sum xs / real (length xs)"

text \<open>\<open>np.ptp\<close> is \<open>max - min\<close>; the reductions have no identity, so an empty row raises.\<close>

definition np_max :: "signal \<Rightarrow> error + real" where
  "np_max xs = (case xs of [] \<Rightarrow> Inl ValueError | y # ys \<Rightarrow> Inr (fold max ys y))"

definition np_min :: "signal \<Rightarrow> error + real" where
  "np_min xs = (case xs of [] \<Rightarrow> Inl ValueError | y # ys \<Rightarrow> Inr (fold min ys y))"

definition np_ptp :: "signal \<Rightarrow> error + real" where
  "np_ptp xs = (case np_max xs of Inl e \<Rightarrow> Inl e
                | Inr hi \<Rightarrow> (case np_min xs of Inl e \<Rightarrow> Inl e | Inr lo \<Rightarrow> Inr (hi - lo)))"

text \<open>\<open>np.diff\<close>: \<open>out[i] = a[i+1] - a[i]\<close>, one element shorter than the input.\<close>

fun np_diff :: "signal \<Rightarrow> signal" where
  "np_diff (x # y # xs) = (y - x) # np_diff (y # xs)"
| "np_diff _ = []"

definition np_sign :: "signal \<Rightarrow> signal" where
  "np_sign xs = map sgn xs"

definition np_abs :: "signal \<Rightarrow> signal" where
  "np_abs xs = map abs xs"

text \<open>The first error of a row-wise computation is the error of the whole call.\<close>

fun collect :: "(error + 'a) list \<Rightarrow> error + 'a list" where
  "collect [] = Inr []"
| "collect (r # rs) =
     (case r of Inl e \<Rightarrow> Inl e
      | Inr v \<Rightarrow> (case collect rs of Inl e \<Rightarrow> Inl e | Inr vs \<Rightarrow> Inr (v # vs)))"

subsection \<open>Basic statistics\<close>

definition compute_mean :: "matrix \<Rightarrow> real list" where
  "compute_mean data = map np_mean data"

definition compute_ptp :: "matrix \<Rightarrow> error + real list" where
  "compute_ptp data = collect (map np_ptp data)"

text \<open>\<open>np.sum(np.diff(np.sign(data), axis=-1) != 0, axis=-1)\<close>: the number of positions
  at which the sign (one of \<open>-1\<close>, \<open>0\<close>, \<open>1\<close>) of consecutive samples differs.\<close>

definition compute_zero_crossings :: "matrix \<Rightarrow> nat list" where
  "compute_zero_crossings data =
     map (\<lambda>row. length (filter (\<lambda>d. d \<noteq> 0) (np_diff (np_sign row)))) data"

definition compute_line_length :: "matrix \<Rightarrow> real list" where
  "compute_line_length data = map (\<lambda>row. np_sum (np_abs (np_diff row))) data"

subsection \<open>The registry \<open>get_univariate_funcs\<close>\<close>

text \<open>
  Every feature function defined in the module gets a tag. A registry value is either the
  function itself or \<open>partial(f, sfreq)\<close>, the function with the sampling rate bound as
  its first argument. The dictionary is kept in insertion order; \<open>d[k] = v\<close> is
  \<open>AList.update\<close>, and a lookup is \<open>map_of\<close>.
\<close>

datatype feature_func =
    Compute_mean | Compute_variance | Compute_std | Compute_ptp
  | Compute_skewness | Compute_kurtosis | Compute_hurst_exponent
  | Compute_app_entropy | Compute_samp_entropy | Compute_decorr_time
  | Compute_power_spectrum_freq_bands
  | Compute_spect_hjorth_mobility | Compute_spect_hjorth_complexity
  | Compute_hjorth_mobility | Compute_hjorth_complexity
  | Compute_higuchi_fd | Compute_katz_fd
  | Compute_zero_crossings | Compute_line_length
  | Compute_spect_entropy | Compute_svd_entropy | Compute_svd_fisher_info
  | Compute_energy_freq_bands | Compute_spect_edge_freq
  | Compute_wavelet_coef_energy

datatype callable = Plain feature_func | Partial feature_func real

fun target :: "callable \<Rightarrow> feature_func" where
  "target (Plain f) = f"
| "target (Partial f sfreq) = f"

fun bound_sfreq :: "callable \<Rightarrow> real option" where
  "bound_sfreq (Plain f) = None"
| "bound_sfreq (Partial f sfreq) = Some sfreq"

definition get_univariate_funcs :: "real \<Rightarrow> (string \<times> callable) list" where
  "get_univariate_funcs sfreq =
     fold (\<lambda>(k, v) univariate_funcs. AList.update k v univariate_funcs)
       [(''mean'', Plain Compute_mean),
        (''variance'', Plain Compute_variance),
        (''std'', Plain Compute_std),
        (''ptp_amplitude'', Plain Compute_ptp),
        (''skewness'', Plain Compute_skewness),
        (''kurtosis'', Plain Compute_kurtosis),
        (''hurst_exp'', Plain Compute_hurst_exponent),
        (''decorr_time'', Partial Compute_decorr_time sfreq),
        (''hjorth_mobility_spect'', Partial Compute_spect_hjorth_mobility sfreq),
        (''hjorth_complexity_spect'', Partial Compute_spect_hjorth_complexity sfreq),
        (''app_entropy'', Plain Compute_app_entropy),
        (''samp_entropy'', Plain Compute_samp_entropy),
        (''hjorth_mobility'', Plain Compute_hjorth_mobility),
        (''hjorth_complexity'', Plain Compute_hjorth_complexity),
        (''higuchi_fd'', Plain Compute_higuchi_fd),
        (''katz_fd'', Plain Compute_katz_fd),
        (''pow_freq_bands'', Partial Compute_power_spectrum_freq_bands sfreq),
        (''zero_cross'', Plain Compute_zero_crossings),
        (''line_len'', Plain Compute_line_length),
        (''spect_entropy'', Partial Compute_spect_entropy sfreq),
        (''svd_entropy'', Plain Compute_svd_entropy),
        (''svd_fisher_info'', Plain Compute_svd_fisher_info),
        (''spect_edge_freq'', Partial Compute_spect_edge_freq sfreq),
        (''wavelet_coef_energy'', Plain Compute_wavelet_coef_energy)]
       []"

text \<open>Every feature function of the module whose first parameter is the sampling rate.\<close>

definition takes_sfreq :: "feature_func \<Rightarrow> bool" where
  "takes_sfreq f \<longleftrightarrow>
     f = Compute_decorr_time \<or> f = Compute_power_spectrum_freq_bands
     \<or> f = Compute_spect_hjorth_mobility \<or> f = Compute_spect_hjorth_complexity
     \<or> f = Compute_spect_entropy \<or> f = Compute_energy_freq_bands
     \<or> f = Compute_spect_edge_freq"

subsection \<open>Kernels built on the power spectrum\<close>

text \<open>
  \<open>power_spectrum(sfreq, data, return_db=False)\<close> lives in \<open>mne_features/utils.py\<close>, outside
  the module; the kernels take it as their first parameter \<open>power_spectrum\<close>. It returns the
  pair \<open>(ps, freqs)\<close>: one row of power values per channel and the frequency of each bin,
  bin 0 being the DC bin. \<open>spectrum_ok\<close> is its contract as far as the kernels rely on it.
\<close>

type_synonym spectrum_fn = "real \<Rightarrow> matrix \<Rightarrow> matrix \<times> signal"

definition spectrum_ok :: "matrix \<Rightarrow> matrix \<times> signal \<Rightarrow> bool" where
  "spectrum_ok data r \<longleftrightarrow>
     length (fst r) = length data \<and> list_all (\<lambda>row. length row = length (snd r)) (fst r)"

definition np_multiply :: "signal \<Rightarrow> signal \<Rightarrow> signal" where
  "np_multiply xs ys = map2 (*) xs ys"

definition np_log2 :: "signal \<Rightarrow> signal" where
  "np_log2 xs = map (log 2) xs"

text \<open>\<open>np.divide(a, m[:, None])\<close>: row \<open>j\<close> of \<open>a\<close> divided element-wise by the scalar \<open>m[j]\<close>.\<close>

definition divide_rows :: "matrix \<Rightarrow> signal \<Rightarrow> matrix" where
  "divide_rows a m = map2 (\<lambda>row mj. map (\<lambda>v. v / mj) row) a m"

definition compute_spect_entropy :: "spectrum_fn \<Rightarrow> real \<Rightarrow> matrix \<Rightarrow> real list" where
  "compute_spect_entropy power_spectrum sfreq data =
     (let (ps, _) = power_spectrum sfreq data;
          m = map np_sum ps;
          ps_norm = divide_rows (map (drop 1) ps) m
      in map (\<lambda>q. - np_sum (np_multiply q (np_log2 q))) ps_norm)"

text \<open>The specification's words, for one channel: the base-2 Shannon entropy of a list of
  weights, and the spectrum of a channel normalised over a chosen set of bins.\<close>

definition shannon2 :: "real list \<Rightarrow> real" where
  "shannon2 q = - (\<Sum>p\<leftarrow>q. p * log 2 p)"

definition entropy_dc_excluded_from_both :: "signal \<Rightarrow> real" where
  "entropy_dc_excluded_from_both row = shannon2 (map (\<lambda>p. p / sum_list (tl row)) (tl row))"

definition entropy_dc_in_divisor :: "signal \<Rightarrow> real" where
  "entropy_dc_in_divisor row = shannon2 (map (\<lambda>p. p / sum_list row) (tl row))"

text \<open>
  \<open>np.digitize(x, bins)\<close> with \<open>right=False\<close>: for non-decreasing bins the index \<open>i\<close> with
  \<open>bins[i-1] <= x < bins[i]\<close> (\<open>0\<close> below the first bin, \<open>len(bins)\<close> from the last one on),
  which is the number of bins \<open>\<le> x\<close>; for non-increasing bins \<open>len(bins)\<close> minus that
  number; \<open>ValueError\<close> when the bins are not monotonic.
\<close>

definition np_digitize :: "signal \<Rightarrow> signal \<Rightarrow> error + nat list" where
  "np_digitize xs bins =
     (if sorted bins then Inr (map (\<lambda>x. length (filter (\<lambda>b. b \<le> x) bins)) xs)
      else if sorted (rev bins)
        then Inr (map (\<lambda>x. length bins - length (filter (\<lambda>b. b \<le> x) bins)) xs)
      else Inl ValueError)"

text \<open>\<open>row[mask]\<close> for a boolean mask over the last axis.\<close>

definition select :: "bool list \<Rightarrow> signal \<Rightarrow> signal" where
  "select msk row = map snd (filter fst (zip msk row))"

text \<open>\<open>a.ravel()\<close> of a two-dimensional array: the rows one after the other.\<close>

definition ravel :: "matrix \<Rightarrow> real list" where
  "ravel a = concat a"

definition compute_power_spectrum_freq_bands ::
    "spectrum_fn \<Rightarrow> real \<Rightarrow> matrix \<Rightarrow> signal \<Rightarrow> bool \<Rightarrow> error + real list" where
  "compute_power_spectrum_freq_bands power_spectrum sfreq data freq_bands normalize' =
     (let n_freqs = length freq_bands;
          (ps, freqs) = power_spectrum sfreq data
      in case np_digitize freqs freq_bands of
           Inl e \<Rightarrow> Inl e
         | Inr idx_freq_bands \<Rightarrow>
             if n_freqs = 0 then Inl ValueError \<comment> \<open>\<open>np.empty((n_channels, -1))\<close>\<close>
             else
               let pow_freq_bands =
                     map (\<lambda>row. map (\<lambda>j. np_sum (select (map (\<lambda>i. i = j) idx_freq_bands) row))
                                   [1..<n_freqs]) ps;
                   pow_freq_bands =
                     (if normalize' then divide_rows pow_freq_bands (map np_sum ps)
                      else pow_freq_bands)
               in Inr (ravel pow_freq_bands))"

text \<open>The band values of channel \<open>c\<close> in the flat output, \<open>n_bands\<close> values per channel.\<close>

definition channel_slice :: "nat \<Rightarrow> nat \<Rightarrow> real list \<Rightarrow> real list" where
  "channel_slice n_bands c out = take n_bands (drop (c * n_bands) out)"

definition band_powers_as_claimed :: "nat \<Rightarrow> nat \<Rightarrow> error + real list \<Rightarrow> bool" where
  "band_powers_as_claimed n_channels n_freqs r =
     (case r of
        Inl e \<Rightarrow> False
      | Inr out \<Rightarrow>
          length out = n_channels * (n_freqs - 1)
          \<and> list_all (\<lambda>c. sum_list (channel_slice (n_freqs - 1) c out) = 1) [0..<n_channels])"







text \<open>A spectrum estimator for the examples: every channel gets the power values \<open>row\<close>
  at the frequencies \<open>freqs\<close>.\<close>

definition const_spectrum :: "signal \<Rightarrow> signal \<Rightarrow> spectrum_fn" where
  "const_spectrum row freqs sfreq data = (map (\<lambda>channel. row) data, freqs)"

text \<open>The power of a channel in the bins whose frequency lies in
  \<open>[freq_bands[0], freq_bands[-1])\<close>.\<close>

definition in_band_power :: "signal \<Rightarrow> signal \<Rightarrow> signal \<Rightarrow> real" where
  "in_band_power freq_bands freqs row =
     np_sum (select (map (\<lambda>f. hd freq_bands \<le> f \<and> f < last freq_bands) freqs) row)"

subsection \<open>Variance, standard deviation and the Hjorth parameters\<close>

text \<open>\<open>np.var(a, ddof=1)\<close> and \<open>np.std(a, ddof=1)\<close>: the squared deviations from the mean,
  summed and divided by \<open>max(n - 1, 0)\<close>.\<close>

definition np_var_ddof1 :: "signal \<Rightarrow> real" where
  "np_var_ddof1 xs =
     (let arrmean = np_mean xs
      in np_sum (map (\<lambda>x. (x - arrmean)\<^sup>2) xs) / real (length xs - 1))"

definition np_std_ddof1 :: "signal \<Rightarrow> real" where
  "np_std_ddof1 xs = sqrt (np_var_ddof1 xs)"

definition compute_variance :: "matrix \<Rightarrow> real list" where
  "compute_variance data = map np_var_ddof1 data"

definition compute_std :: "matrix \<Rightarrow> real list" where
  "compute_std data = map np_std_ddof1 data"

definition np_divide :: "signal \<Rightarrow> signal \<Rightarrow> signal" where
  "np_divide xs ys = map2 (/) xs ys"

text \<open>\<open>np.insert(data, 0, 0, axis=-1)\<close>: a zero in front of every row.\<close>

definition np_insert0 :: "matrix \<Rightarrow> matrix" where
  "np_insert0 data = map (\<lambda>row. 0 # row) data"

definition compute_hjorth_mobility :: "matrix \<Rightarrow> real list" where
  "compute_hjorth_mobility data =
     (let x = np_insert0 data;
          dx = map np_diff x;
          sx = map np_std_ddof1 x;
          sdx = map np_std_ddof1 dx;
          mobility = np_divide sdx sx
      in mobility)"

definition compute_hjorth_complexity :: "matrix \<Rightarrow> real list" where
  "compute_hjorth_complexity data =
     (let x = np_insert0 data;
          dx = map np_diff x;
          m_dx = compute_hjorth_mobility dx;
          m_x = compute_hjorth_mobility data;
          complexity = np_divide m_dx m_x
      in complexity)"

text \<open>The specification's words, for one channel: the unbiased standard deviation and the
  first difference by their index formulas, and the two readings of "mobility".\<close>

definition unbiased_std :: "signal \<Rightarrow> real" where
  "unbiased_std xs =
     (let n = length xs; mu = (\<Sum>i<n. xs ! i) / real n
      in sqrt ((\<Sum>i<n. (xs ! i - mu)\<^sup>2) / real (n - 1)))"

definition first_difference :: "signal \<Rightarrow> signal" where
  "first_difference xs = map (\<lambda>i. xs ! Suc i - xs ! i) [0..<length xs - 1]"

definition mobility_over_signal :: "signal \<Rightarrow> real" where
  "mobility_over_signal row = unbiased_std (first_difference (0 # row)) / unbiased_std row"

definition mobility_over_padded :: "signal \<Rightarrow> real" where
  "mobility_over_padded row =
     unbiased_std (first_difference (0 # row)) / unbiased_std (0 # row)"

subsection \<open>Hurst exponent\<close>










subsection \<open>Autocorrelation and decorrelation time\<close>

text \<open>\<open>signal.fftconvolve(x, y, mode='full')\<close> computes the full linear convolution
  \<open>out[k] = \<Sum>\<^sub>i x[i] * y[k - i]\<close> of length \<open>len(x) + len(y) - 1\<close> (empty when an input is
  empty); the FFT is how SciPy evaluates it.\<close>

definition fftconvolve_full :: "signal \<Rightarrow> signal \<Rightarrow> signal" where
  "fftconvolve_full x y =
     (if x = [] \<or> y = [] then []
      else map (\<lambda>k. \<Sum>i\<leftarrow>[0..<length x]. if i \<le> k \<and> k - i < length y
                                           then x ! i * y ! (k - i) else 0)
               [0..<length x + length y - 1])"

text \<open>The normalisation counts of \<open>_unbiased_autocorr\<close> for a channel of \<open>n_times\<close>
  samples: \<open>m = n_times - 1\<close>, \<open>lags = arange(-m, m + 1)\<close>, \<open>s = m - |lags|\<close>, and
  \<open>s[np.where(s <= 0)] = 1\<close>.\<close>

definition autocorr_counts :: "nat \<Rightarrow> int list" where
  "autocorr_counts n_times =
     (let m = int n_times - 1;
          lags = [- m..m];
          s = map (\<lambda>lag. m - \<bar>lag\<bar>) lags
      in map (\<lambda>v. if v \<le> 0 then 1 else v) s)"

definition unbiased_autocorr :: "signal \<Rightarrow> signal" where
  "unbiased_autocorr x =
     (let s = autocorr_counts (length x);
          autocorr = fftconvolve_full x (rev x)
      in np_divide autocorr (map real_of_int s))"

text \<open>\<open>np.argmax\<close> of a boolean array: the first index holding \<open>True\<close>, and 0 when there
  is none.\<close>

fun first_true :: "bool list \<Rightarrow> nat" where
  "first_true [] = 0"
| "first_true (b # bs) = (if b then 0 else Suc (first_true bs))"

definition np_argmax :: "bool list \<Rightarrow> nat" where
  "np_argmax bs = (if True \<in> set bs then first_true bs else 0)"

text \<open>The non-negative-lag half \<open>ac_channel[(n_times - 1):]\<close> of the autocorrelation.\<close>

definition autocorr_half :: "signal \<Rightarrow> signal" where
  "autocorr_half row = drop (length row - 1) (unbiased_autocorr row)"

definition compute_decorr_time :: "real \<Rightarrow> matrix \<Rightarrow> real list" where
  "compute_decorr_time sfreq data =
     map (\<lambda>row. let zero_cross = map (\<lambda>v. v \<le> 0) (autocorr_half row)
                in if True \<in> set zero_cross
                   then real (np_argmax zero_cross) / sfreq
                   else - 1)
         data"

subsection \<open>Sample entropy\<close>








text \<open>The first loop over a channel accumulates \<open>m\<close> and \<open>s\<close>; then \<open>m /= n_times\<close>,
  \<open>s /= n_times\<close> and \<open>s = sqrt(s)\<close>. On an empty channel \<open>m\<close> is still the integer \<open>0\<close>
  and \<open>m /= n_times\<close> raises \<open>ZeroDivisionError\<close>.\<close>

definition sampen_m_s :: "signal \<Rightarrow> error + real \<times> real" where
  "sampen_m_s row =
     (let n_times = length row;
          (m, s) = fold (\<lambda>j (m, s). (m + row ! j, s + (row ! j)\<^sup>2)) [0..<n_times] (0, 0)
      in if n_times = 0 then Inl ZeroDivisionError
         else (let m = m / real n_times;
                   s = s / real n_times;
                   s = sqrt s
               in Inr (m, s)))"















subsection \<open>Wavelet coefficient energy\<close>

text \<open>
  PyWavelets is outside the repository; the kernel takes what it uses of it as the
  parameter \<open>pywt\<close>: \<open>Wavelet(name)\<close> (a \<open>ValueError\<close> for an unknown name), which carries the
  filter length \<open>dec_len\<close> and the single-level transform \<open>dwt\<close> returning the pair
  \<open>(cA, cD)\<close> of approximation and detail coefficients, and \<open>dwt_max_level\<close>.
\<close>

record wavelet =
  dec_len :: nat
  dwt :: "signal \<Rightarrow> signal \<times> signal"

record pywt_lib =
  Wavelet :: "string \<Rightarrow> error + wavelet"
  dwt_max_level :: "nat \<Rightarrow> nat \<Rightarrow> nat"

text \<open>\<open>pywt.wavedec\<close> iterates the single-level transform on the approximation, appends
  each detail array, then the last approximation, and reverses the list: the result is
  \<open>[cA_n, cD_n, ..., cD_2, cD_1]\<close>.\<close>

fun wavedec_loop ::
    "(signal \<Rightarrow> signal \<times> signal) \<Rightarrow> nat \<Rightarrow> signal \<Rightarrow> signal list \<Rightarrow> signal \<times> signal list" where
  "wavedec_loop f 0 a coeffs_list = (a, coeffs_list)"
| "wavedec_loop f (Suc k) a coeffs_list =
     (let (a', d) = f a in wavedec_loop f k a' (coeffs_list @ [d]))"

definition wavedec :: "wavelet \<Rightarrow> signal \<Rightarrow> nat \<Rightarrow> signal list" where
  "wavedec w x level =
     (let (a, coeffs_list) = wavedec_loop (dwt w) level x []
      in rev (coeffs_list @ [a]))"

definition compute_wavelet_coef_energy ::
    "pywt_lib \<Rightarrow> matrix \<Rightarrow> string \<Rightarrow> error + real list" where
  "compute_wavelet_coef_energy pywt data wavelet_name =
     (let n_times = (case data of [] \<Rightarrow> 0 | row # _ \<Rightarrow> length row)
      in case Wavelet pywt wavelet_name of
           Inl e \<Rightarrow> Inl e
         | Inr w \<Rightarrow>
             let levdec = min (dwt_max_level pywt n_times (dec_len w)) 6;
                 wavelet_energy =
                   map (\<lambda>row. let coefs = wavedec w row levdec
                              in map (\<lambda>l. np_sum (map (\<lambda>c. c\<^sup>2) (coefs ! (levdec - l))))
                                     [0..<levdec])
                       data
             in Inr (ravel wavelet_energy))"

text \<open>Decomposition levels: the approximation after \<open>k\<close> steps and the detail coefficients
  of level \<open>k \<ge> 1\<close>; level 1 is the finest, higher levels are coarser.\<close>

fun approx_at :: "(signal \<Rightarrow> signal \<times> signal) \<Rightarrow> signal \<Rightarrow> nat \<Rightarrow> signal" where
  "approx_at f x 0 = x"
| "approx_at f x (Suc k) = fst (f (approx_at f x k))"

definition detail_at :: "(signal \<Rightarrow> signal \<times> signal) \<Rightarrow> signal \<Rightarrow> nat \<Rightarrow> signal" where
  "detail_at f x k = snd (f (approx_at f x (k - 1)))"

definition energy :: "signal \<Rightarrow> real" where
  "energy cs = (\<Sum>c\<leftarrow>cs. c\<^sup>2)"

definition energies_coarsest_first ::
    "(signal \<Rightarrow> signal \<times> signal) \<Rightarrow> nat \<Rightarrow> signal \<Rightarrow> real list" where
  "energies_coarsest_first f levdec row =
     map (\<lambda>k. energy (detail_at f row k)) (rev [1..<Suc levdec])"

definition energies_finest_first ::
    "(signal \<Rightarrow> signal \<times> signal) \<Rightarrow> nat \<Rightarrow> signal \<Rightarrow> real list" where
  "energies_finest_first f levdec row =
     map (\<lambda>k. energy (detail_at f row k)) [1..<Suc levdec]"

text \<open>An instance for the examples, the Haar wavelet: filter length 2, pairwise sums and
  differences over \<open>sqrt 2\<close> (a trailing single sample is paired with its mirror image),
  and the maximum level \<open>floor(log2(data_len / (filter_len - 1)))\<close>.\<close>

fun haar_dwt :: "signal \<Rightarrow> signal \<times> signal" where
  "haar_dwt (x # y # xs) =
     (let (cA, cD) = haar_dwt xs in ((x + y) / sqrt 2 # cA, (x - y) / sqrt 2 # cD))"
| "haar_dwt [x] = ([(x + x) / sqrt 2], [0])"
| "haar_dwt [] = ([], [])"

definition haar_pywt :: pywt_lib where
  "haar_pywt =
     \<lparr>Wavelet = (\<lambda>name. if name = ''haar'' then Inr \<lparr>dec_len = 2, dwt = haar_dwt\<rparr>
                         else Inl ValueError),
      dwt_max_level = (\<lambda>data_len filter_len.
                         floorlog 2 (data_len div (filter_len - 1)) - 1)\<rparr>"

subsection \<open>The two-channel test signal\<close>

definition ramp :: "nat \<Rightarrow> signal" where
  "ramp n = map real [0..<n]"

definition ramp_data :: matrix where
  "ramp_data = [replicate 256 0, ramp 256]"

section \<open>Properties\<close>

lemma registry_unfolded:
  "get_univariate_funcs sfreq =
       [(''mean'', Plain Compute_mean),
        (''variance'', Plain Compute_variance),
        (''std'', Plain Compute_std),
        (''ptp_amplitude'', Plain Compute_ptp),
        (''skewness'', Plain Compute_skewness),
        (''kurtosis'', Plain Compute_kurtosis),
        (''hurst_exp'', Plain Compute_hurst_exponent),
        (''decorr_time'', Partial Compute_decorr_time sfreq),
        (''hjorth_mobility_spect'', Partial Compute_spect_hjorth_mobility sfreq),
        (''hjorth_complexity_spect'', Partial Compute_spect_hjorth_complexity sfreq),
        (''app_entropy'', Plain Compute_app_entropy),
        (''samp_entropy'', Plain Compute_samp_entropy),
        (''hjorth_mobility'', Plain Compute_hjorth_mobility),
        (''hjorth_complexity'', Plain Compute_hjorth_complexity),
        (''higuchi_fd'', Plain Compute_higuchi_fd),
        (''katz_fd'', Plain Compute_katz_fd),
        (''pow_freq_bands'', Partial Compute_power_spectrum_freq_bands sfreq),
        (''zero_cross'', Plain Compute_zero_crossings),
        (''line_len'', Plain Compute_line_length),
        (''spect_entropy'', Partial Compute_spect_entropy sfreq),
        (''svd_entropy'', Plain Compute_svd_entropy),
        (''svd_fisher_info'', Plain Compute_svd_fisher_info),
        (''spect_edge_freq'', Partial Compute_spect_edge_freq sfreq),
        (''wavelet_coef_energy'', Plain Compute_wavelet_coef_energy)]"
  by (simp add: get_univariate_funcs_def)

subsection \<open>The ramp signal through the basic statistics\<close>

lemma length_ramp: "length (ramp n) = n"
  by (simp add: ramp_def)

lemma ramp_Suc: "ramp (Suc n) = 0 # map real [1..<Suc n]"
  by (simp add: ramp_def upt_rec)

lemma sum_list_ramp: "sum_list (ramp n) = real n * (real n - 1) / 2"
  unfolding ramp_def by (induction n) (auto simp: field_simps)

lemma np_diff_upt: "np_diff (map real [a..<a + n]) = replicate (n - 1) 1"
proof (induction n arbitrary: a)
  case 0
  then show ?case by simp
next
  case (Suc n)
  show ?case
  proof (cases n)
    case 0
    then show ?thesis by simp
  next
    case (Suc m)
    have "[a..<a + Suc (Suc m)] = a # Suc a # [Suc (Suc a)..<a + Suc (Suc m)]"
      by (simp add: upt_rec)
    moreover have "[Suc a..<Suc a + Suc m] = Suc a # [Suc (Suc a)..<a + Suc (Suc m)]"
      by (simp add: upt_rec)
    ultimately show ?thesis
      using Suc.IH [of "Suc a"] Suc by simp
  qed
qed

lemma np_diff_ramp: "np_diff (ramp n) = replicate (n - 1) 1"
  using np_diff_upt [of 0 n] by (simp add: ramp_def)

lemma np_diff_replicate: "np_diff (replicate n c) = replicate (n - 1) 0"
proof (induction n)
  case 0
  then show ?case by simp
next
  case (Suc n)
  then show ?case by (cases n) simp_all
qed

lemma np_sign_ramp: "np_sign (ramp (Suc n)) = 0 # replicate n 1"
proof -
  have "map sgn (map real [1..<Suc n]) = replicate n 1"
    by (rule nth_equalityI) (simp_all del: upt_Suc)
  then show ?thesis
    by (simp add: np_sign_def ramp_Suc del: upt_Suc)
qed

lemma fold_max_upt:
  "fold max (map real [a..<a + n]) m = (if n = 0 then m else max m (real (a + n - 1)))"
  by (induction n) auto

lemma fold_min_lower: "\<forall>x\<in>set ys. m \<le> x \<Longrightarrow> fold min ys (m::real) = m"
  by (induction ys) (simp_all add: min_absorb2)

lemma fold_max_upper: "\<forall>x\<in>set ys. x \<le> m \<Longrightarrow> fold max ys (m::real) = m"
  by (induction ys) (simp_all add: max_absorb2)

lemma np_diff_Cons_replicate:
  "np_diff (x # replicate (Suc n) c) = (c - x) # replicate n 0"
  using np_diff_replicate [of "Suc n" c] by simp

lemma np_ptp_ramp: "np_ptp (ramp (Suc n)) = Inr (real n)"
proof -
  have hi: "fold max (map real [1..<Suc n]) 0 = real n"
    using fold_max_upt [of 1 n 0] by (simp del: upt_Suc)
  have lo: "fold min (map real [1..<Suc n]) 0 = 0"
    by (rule fold_min_lower) simp
  show ?thesis
    using hi lo by (simp add: np_ptp_def np_max_def np_min_def ramp_Suc del: upt_Suc)
qed

lemma np_ptp_zeros: "np_ptp (replicate (Suc n) 0) = Inr 0"
proof -
  have "fold max (replicate n 0) 0 = (0::real)" by (rule fold_max_upper) simp
  moreover have "fold min (replicate n 0) 0 = (0::real)" by (rule fold_min_lower) simp
  ultimately show ?thesis
    by (simp add: np_ptp_def np_max_def np_min_def)
qed

text \<open>
  Claim C1, as stated: on the two-channel, 256-sample signal (channel 0 all zeros, channel 1
  the ramp \<open>0, 1, ..., 255\<close>) the kernel registered as \<open>zero_cross\<close> returns \<open>[0, 0]\<close>.
  It does not: the ramp starts at a sample that is exactly zero, whose sign \<open>0\<close> differs
  from the sign \<open>1\<close> of the next sample, so channel 1 counts one sign change.
\<close>

theorem ramp_zero_cross_counterexample:
  "compute_zero_crossings ramp_data \<noteq> [0, 0]"
proof -
  have "np_diff (np_sign (ramp 256)) = 1 # replicate 254 0"
    using np_sign_ramp [of 255] np_diff_Cons_replicate [of 0 254 1] by simp
  then show ?thesis
    by (simp add: compute_zero_crossings_def ramp_data_def)
qed

text \<open>
  Claim C1, amended: on that signal the kernels registered as \<open>mean\<close>,
  \<open>ptp_amplitude\<close>, \<open>zero_cross\<close> and \<open>line_len\<close> are \<open>compute_mean\<close>,
  \<open>compute_ptp\<close>, \<open>compute_zero_crossings\<close> and \<open>compute_line_length\<close>, and they return
  exactly \<open>[0, 127.5]\<close>, \<open>[0, 255]\<close>, \<open>[0, 1]\<close> and \<open>[0, 255]\<close>. All intermediate
  values are integers or half-integers far below \<open>2^53\<close>, so the doubles of the source
  carry them without rounding.
\<close>

theorem ramp_kernels:
  "map_of (get_univariate_funcs sfreq) ''mean'' = Some (Plain Compute_mean)
   \<and> map_of (get_univariate_funcs sfreq) ''ptp_amplitude'' = Some (Plain Compute_ptp)
   \<and> map_of (get_univariate_funcs sfreq) ''zero_cross'' = Some (Plain Compute_zero_crossings)
   \<and> map_of (get_univariate_funcs sfreq) ''line_len'' = Some (Plain Compute_line_length)
   \<and> compute_mean ramp_data = [0, 127.5]
   \<and> compute_ptp ramp_data = Inr [0, 255]
   \<and> compute_zero_crossings ramp_data = [0, 1]
   \<and> compute_line_length ramp_data = [0, 255]"
proof -
  have reg: "map_of (get_univariate_funcs sfreq) ''mean'' = Some (Plain Compute_mean)"
    "map_of (get_univariate_funcs sfreq) ''ptp_amplitude'' = Some (Plain Compute_ptp)"
    "map_of (get_univariate_funcs sfreq) ''zero_cross'' = Some (Plain Compute_zero_crossings)"
    "map_of (get_univariate_funcs sfreq) ''line_len'' = Some (Plain Compute_line_length)"
    by (simp_all add: registry_unfolded)
  have mean: "compute_mean ramp_data = [0, 127.5]"
    by (simp add: compute_mean_def ramp_data_def np_mean_def np_sum_def sum_list_ramp
        length_ramp sum_list_replicate)
  have ptp: "compute_ptp ramp_data = Inr [0, 255]"
    using np_ptp_ramp [of 255] np_ptp_zeros [of 255]
    by (simp add: compute_ptp_def ramp_data_def)
  have "np_diff (np_sign (replicate 256 0)) = replicate 255 0"
    by (simp add: np_sign_def np_diff_replicate)
  moreover have "np_diff (np_sign (ramp 256)) = 1 # replicate 254 0"
    using np_sign_ramp [of 255] np_diff_Cons_replicate [of 0 254 1] by simp
  ultimately have zc: "compute_zero_crossings ramp_data = [0, 1]"
    by (simp add: compute_zero_crossings_def ramp_data_def)
  have ll: "compute_line_length ramp_data = [0, 255]"
    by (simp add: compute_line_length_def ramp_data_def np_abs_def np_sum_def
        np_diff_ramp np_diff_replicate sum_list_replicate)
  from reg mean ptp zc ll show ?thesis by simp
qed


subsection \<open>The registry\<close>

lemma feature_func_UNIV:
  "(UNIV :: feature_func set) =
     {Compute_mean, Compute_variance, Compute_std, Compute_ptp, Compute_skewness,
      Compute_kurtosis, Compute_hurst_exponent, Compute_app_entropy, Compute_samp_entropy,
      Compute_decorr_time, Compute_power_spectrum_freq_bands, Compute_spect_hjorth_mobility,
      Compute_spect_hjorth_complexity, Compute_hjorth_mobility, Compute_hjorth_complexity,
      Compute_higuchi_fd, Compute_katz_fd, Compute_zero_crossings, Compute_line_length,
      Compute_spect_entropy, Compute_svd_entropy, Compute_svd_fisher_info,
      Compute_energy_freq_bands, Compute_spect_edge_freq, Compute_wavelet_coef_energy}"
proof -
  have "f \<in> {Compute_mean, Compute_variance, Compute_std, Compute_ptp, Compute_skewness,
      Compute_kurtosis, Compute_hurst_exponent, Compute_app_entropy, Compute_samp_entropy,
      Compute_decorr_time, Compute_power_spectrum_freq_bands, Compute_spect_hjorth_mobility,
      Compute_spect_hjorth_complexity, Compute_hjorth_mobility, Compute_hjorth_complexity,
      Compute_higuchi_fd, Compute_katz_fd, Compute_zero_crossings, Compute_line_length,
      Compute_spect_entropy, Compute_svd_entropy, Compute_svd_fisher_info,
      Compute_energy_freq_bands, Compute_spect_edge_freq, Compute_wavelet_coef_energy}" for f
    by (cases f) simp_all
  then show ?thesis by blast
qed

text \<open>
  Claim C7 at the registry built for any sampling rate (for instance 256): it has 24
  entries under 24 distinct names, they cover every feature function of the module except
  \<open>compute_energy_freq_bands\<close> (the band-energy kernel of section 4.9 of the specification),
  and an entry is \<open>partial(f, sfreq)\<close> exactly when \<open>f\<close> takes the sampling rate. So
  the band-energy kernel, although defined with the same signature as its registered
  sibling \<open>compute_power_spectrum_freq_bands\<close>, has no entry.
\<close>

theorem registry_misses_energy_freq_bands:
  "length (get_univariate_funcs sfreq) = 24
   \<and> distinct (map fst (get_univariate_funcs sfreq))
   \<and> set (map (target \<circ> snd) (get_univariate_funcs sfreq))
       = UNIV - {Compute_energy_freq_bands}
   \<and> map (bound_sfreq \<circ> snd) (get_univariate_funcs sfreq)
       = map (\<lambda>(k, c). if takes_sfreq (target c) then Some sfreq else None)
           (get_univariate_funcs sfreq)"
proof -
  have "length (get_univariate_funcs sfreq) = 24"
    by (simp add: registry_unfolded)
  moreover have "distinct (map fst (get_univariate_funcs sfreq))"
    by (simp add: registry_unfolded)
  moreover have "set (map (target \<circ> snd) (get_univariate_funcs sfreq))
       = UNIV - {Compute_energy_freq_bands}"
    unfolding feature_func_UNIV by (simp add: registry_unfolded) blast
  moreover have "map (bound_sfreq \<circ> snd) (get_univariate_funcs sfreq)
       = map (\<lambda>(k, c). if takes_sfreq (target c) then Some sfreq else None)
           (get_univariate_funcs sfreq)"
    by (simp add: registry_unfolded takes_sfreq_def)
  ultimately show ?thesis by blast
qed

subsection \<open>Spectral edge frequency and spectral entropy\<close>


lemma divide_rows_nth:
  "j < length a \<Longrightarrow> j < length m \<Longrightarrow> divide_rows a m ! j = map (\<lambda>v. v / m ! j) (a ! j)"
  by (simp add: divide_rows_def)

lemma length_divide_rows: "length (divide_rows a m) = min (length a) (length m)"
  by (simp add: divide_rows_def)

lemma entropy_of_weights: "- np_sum (np_multiply q (np_log2 q)) = shannon2 q"
proof -
  have "map2 (*) q (map (log 2) q) = map (\<lambda>p. p * log 2 p) q"
    by (induction q) simp_all
  then show ?thesis
    by (simp add: np_sum_def np_multiply_def np_log2_def shannon2_def)
qed

lemma sum_list_divide: "sum_list (map (\<lambda>v. v / d) xs) = sum_list xs / (d::real)"
  by (induction xs) (simp_all add: add_divide_distrib)

lemma log2_half: "log 2 (1 / 2) = - 1"
  by (simp add: log_divide)

text \<open>
  Claim C2, as stated: the divisor of the normalised spectrum is the sum over the non-DC
  bins only. With unit power in the DC bin and in one further bin, the kernel returns
  \<open>1/2\<close>, whereas the entropy of the spectrum normalised over the non-DC bins is \<open>0\<close>.
\<close>

theorem spect_entropy_divisor_counterexample:
  "compute_spect_entropy (const_spectrum [1, 1] [0, 1]) 2 [[0, 1]]
     \<noteq> map entropy_dc_excluded_from_both (fst (const_spectrum [1, 1] [0, 1] 2 [[0, 1]]))"
proof -
  have "compute_spect_entropy (const_spectrum [1, 1] [0, 1]) 2 [[0, 1]] = [1 / 2]"
    by (simp add: compute_spect_entropy_def const_spectrum_def divide_rows_def np_sum_def
        np_multiply_def np_log2_def log2_half)
  moreover
  have "map entropy_dc_excluded_from_both (fst (const_spectrum [1, 1] [0, 1] 2 [[0, 1]])) = [0]"
    by (simp add: const_spectrum_def entropy_dc_excluded_from_both_def shannon2_def)
  ultimately show ?thesis by simp
qed

text \<open>
  Claim C2, amended: per channel, \<open>compute_spect_entropy\<close> returns the base-2 Shannon sum
  \<open>- \<Sum> q log2 q\<close> over the non-DC bins of the weights \<open>q = ps / m\<close>, where the divisor \<open>m\<close>
  is the sum of the power over all bins, the DC bin included. The DC bin is excluded from
  the entropy sum only, so the weights add up to \<open>1 - ps[0] / m\<close>, not to 1.
\<close>

theorem spect_entropy_divisor:
  assumes "power_spectrum sfreq data = (ps, freqs)"
  shows "compute_spect_entropy power_spectrum sfreq data = map entropy_dc_in_divisor ps
    \<and> (\<forall>row\<in>set ps. row \<noteq> [] \<and> sum_list row \<noteq> 0 \<longrightarrow>
          sum_list (map (\<lambda>p. p / sum_list row) (tl row)) = 1 - hd row / sum_list row)"
proof
  have "divide_rows (map (drop 1) ps) (map np_sum ps)
          = map (\<lambda>row. map (\<lambda>p. p / sum_list row) (tl row)) ps"
    by (rule nth_equalityI) (simp_all add: divide_rows_def np_sum_def drop_Suc)
  then show "compute_spect_entropy power_spectrum sfreq data = map entropy_dc_in_divisor ps"
    using assms
    by (simp add: compute_spect_entropy_def entropy_of_weights entropy_dc_in_divisor_def)
next
  show "\<forall>row\<in>set ps. row \<noteq> [] \<and> sum_list row \<noteq> 0 \<longrightarrow>
          sum_list (map (\<lambda>p. p / sum_list row) (tl row)) = 1 - hd row / sum_list row"
  proof (intro ballI impI)
    fix row :: "real list"
    assume "row \<noteq> [] \<and> sum_list row \<noteq> 0"
    then obtain x xs where row: "row = x # xs" and nz: "x + sum_list xs \<noteq> 0"
      by (cases row) auto
    show "sum_list (map (\<lambda>p. p / sum_list row) (tl row)) = 1 - hd row / sum_list row"
      using nz by (simp add: row sum_list_divide field_simps)
  qed
qed


theorem spect_entropy_divisor_witness:
  "compute_spect_entropy (const_spectrum [1, 1] [0, 1]) 2 [[0, 1]] = [1 / 2]
   \<and> sum_list (map (\<lambda>p. p / sum_list [1, 1]) (tl [1, 1 :: real])) = 1 / 2"
proof -
  have psd: "const_spectrum [1, 1] [0, 1] 2 [[0, 1]] = ([[1, 1]], [0, 1])"
    by (simp add: const_spectrum_def)
  have "entropy_dc_in_divisor [1, 1] = 1 / 2"
    by (simp add: entropy_dc_in_divisor_def shannon2_def log2_half)
  with spect_entropy_divisor [where power_spectrum = "const_spectrum [1, 1] [0, 1]"
      and sfreq = 2 and data = "[[0, 1]]", OF psd] show ?thesis
    by simp
qed

subsection \<open>Band power\<close>

lemma length_concat_uniform:
  "\<forall>xs\<in>set xss. length xs = k \<Longrightarrow> length (concat xss) = length xss * k"
  by (induction xss) simp_all

lemma channel_slice_concat:
  "\<forall>xs\<in>set xss. length xs = k \<Longrightarrow> c < length xss \<Longrightarrow>
     channel_slice k c (concat xss) = xss ! c"
proof (induction xss arbitrary: c)
  case Nil
  then show ?case by simp
next
  case (Cons xs xss)
  show ?case
  proof (cases c)
    case 0
    with Cons.prems show ?thesis by (simp add: channel_slice_def)
  next
    case (Suc d)
    with Cons.prems have "channel_slice k d (concat xss) = xss ! d"
      by (intro Cons.IH) simp_all
    with Cons.prems Suc show ?thesis by (simp add: channel_slice_def)
  qed
qed

lemma sum_list_indicator_upt:
  "(\<Sum>j\<leftarrow>[a..<b]. if i = j then r else 0) = (if a \<le> i \<and> i < b then (r::real) else 0)"
  by (induction b) auto

lemma select_Cons:
  "select (m # ms) (r # rs) = (if m then r # select ms rs else select ms rs)"
  by (simp add: select_def)

lemma select_Nil: "select [] row = []" "select msk [] = []"
  by (simp_all add: select_def)

lemma sum_bands_select:
  "(\<Sum>j\<leftarrow>[a..<b]. np_sum (select (map (\<lambda>i. i = j) idx) row))
     = np_sum (select (map (\<lambda>i. a \<le> i \<and> i < b) idx) row)"
proof (induction idx arbitrary: row)
  case Nil
  show ?case by (simp add: select_Nil np_sum_def)
next
  case (Cons i idx)
  show ?case
  proof (cases row)
    case Nil
    then show ?thesis by (simp add: select_Nil np_sum_def)
  next
    case (Cons r rs)
    have "(\<Sum>j\<leftarrow>[a..<b]. np_sum (select (map (\<lambda>i. i = j) (i # idx)) (r # rs)))
        = (\<Sum>j\<leftarrow>[a..<b]. (if i = j then r else 0) + np_sum (select (map (\<lambda>i. i = j) idx) rs))"
      by (intro arg_cong [where f = sum_list] map_cong) (simp_all add: select_Cons np_sum_def)
    also have "\<dots> = (\<Sum>j\<leftarrow>[a..<b]. if i = j then r else 0)
        + (\<Sum>j\<leftarrow>[a..<b]. np_sum (select (map (\<lambda>i. i = j) idx) rs))"
      by (simp add: sum_list_addf)
    also have "\<dots> = (if a \<le> i \<and> i < b then r else 0)
        + np_sum (select (map (\<lambda>i. a \<le> i \<and> i < b) idx) rs)"
      by (simp only: sum_list_indicator_upt Cons.IH)
    also have "\<dots> = np_sum (select (map (\<lambda>i. a \<le> i \<and> i < b) (i # idx)) (r # rs))"
      by (simp add: select_Cons np_sum_def)
    finally show ?thesis using Cons by simp
  qed
qed

lemma count_le_pos_iff:
  assumes "sorted bins" "bins \<noteq> []"
  shows "1 \<le> length (filter (\<lambda>b. b \<le> x) bins) \<longleftrightarrow> hd bins \<le> (x::real)"
proof -
  have "1 \<le> length (filter (\<lambda>b. b \<le> x) bins) \<longleftrightarrow> (\<exists>b\<in>set bins. b \<le> x)"
    by (induction bins) auto
  also have "\<dots> \<longleftrightarrow> hd bins \<le> x"
  proof
    assume "\<exists>b\<in>set bins. b \<le> x"
    then obtain b where "b \<in> set bins" "b \<le> x" by blast
    moreover have "hd bins \<le> b"
      using assms \<open>b \<in> set bins\<close> by (cases bins) auto
    ultimately show "hd bins \<le> x" by simp
  next
    assume "hd bins \<le> x"
    with assms(2) show "\<exists>b\<in>set bins. b \<le> x"
      by (cases bins) auto
  qed
  finally show ?thesis .
qed

lemma count_le_less_iff:
  assumes "sorted bins" "bins \<noteq> []"
  shows "length (filter (\<lambda>b. b \<le> x) bins) < length bins \<longleftrightarrow> (x::real) < last bins"
proof -
  have "length (filter (\<lambda>b. b \<le> x) bins) < length bins \<longleftrightarrow> (\<exists>b\<in>set bins. \<not> b \<le> x)"
    by (induction bins) (auto simp: less_Suc_eq_le)
  also have "\<dots> \<longleftrightarrow> x < last bins"
  proof
    assume "\<exists>b\<in>set bins. \<not> b \<le> x"
    then obtain b where b: "b \<in> set bins" "x < b" by auto
    have "b \<le> last bins"
      using assms(1) b(1) by (induction bins) auto
    with b show "x < last bins" by simp
  next
    assume "x < last bins"
    moreover have "last bins \<in> set bins" using assms(2) by simp
    ultimately show "\<exists>b\<in>set bins. \<not> b \<le> x" by force
  qed
  finally show ?thesis .
qed


lemma digitize_sorted:
  "sorted bins \<Longrightarrow>
     np_digitize xs bins = Inr (map (\<lambda>x. length (filter (\<lambda>b. b \<le> x) bins)) xs)"
  by (simp add: np_digitize_def)

lemma in_band_mask:
  assumes "sorted (bins :: real list)" "bins \<noteq> []"
  shows "map (\<lambda>i. 1 \<le> i \<and> i < length bins) (map (\<lambda>x. length (filter (\<lambda>b. b \<le> x) bins)) xs)
           = map (\<lambda>f. hd bins \<le> f \<and> f < last bins) xs"
  using count_le_pos_iff [OF assms] count_le_less_iff [OF assms] by simp

text \<open>
  Claim C3, amended: for a spectrum that has one row per channel and a non-empty,
  non-decreasing band sequence of length \<open>n_freqs\<close>, \<open>compute_power_spectrum_freq_bands\<close>
  returns a vector of length \<open>n_channels * (n_freqs - 1)\<close>. The band values of a channel
  add up to the power of that channel in the bins with frequency in
  \<open>[freq_bands[0], freq_bands[-1])\<close>, and with \<open>normalize=True\<close> to that power divided by
  the total power of the channel over all bins: the fraction of the power that lies inside
  the bands, which is 1 only when no power lies outside them.
\<close>

theorem band_power_length_and_fraction:
  assumes psd: "power_spectrum sfreq data = (ps, freqs)"
    and ok: "spectrum_ok data (ps, freqs)"
    and fb: "freq_bands \<noteq> []" "sorted freq_bands"
  shows "\<exists>out. compute_power_spectrum_freq_bands power_spectrum sfreq data freq_bands nrm = Inr out
     \<and> length out = length data * (length freq_bands - 1)
     \<and> (\<forall>c<length data. sum_list (channel_slice (length freq_bands - 1) c out)
          = (if nrm then in_band_power freq_bands freqs (ps ! c) / np_sum (ps ! c)
             else in_band_power freq_bands freqs (ps ! c)))"
proof -
  define n where "n = length freq_bands"
  define idx where "idx = map (\<lambda>x. length (filter (\<lambda>b. b \<le> x) freq_bands)) freqs"
  define pow where
    "pow = map (\<lambda>row. map (\<lambda>j. np_sum (select (map (\<lambda>i. i = j) idx) row)) [1..<n]) ps"
  define rows where "rows = (if nrm then divide_rows pow (map np_sum ps) else pow)"
  have n: "n \<noteq> 0" using fb(1) by (simp add: n_def)
  have len_ps: "length ps = length data"
    using ok by (simp add: spectrum_ok_def)
  have result: "compute_power_spectrum_freq_bands power_spectrum sfreq data freq_bands nrm
      = Inr (concat rows)"
    using psd n fb(2)
    by (simp add: compute_power_spectrum_freq_bands_def digitize_sorted ravel_def
        n_def idx_def pow_def rows_def Let_def)
  have len_rows: "length rows = length data"
    by (simp add: rows_def pow_def length_divide_rows len_ps)
  have row_c: "rows ! c = (if nrm then map (\<lambda>v. v / np_sum (ps ! c)) (pow ! c) else pow ! c)"
    if "c < length data" for c
    using that by (simp add: rows_def divide_rows_nth pow_def len_ps)
  have len_pow_c: "length (pow ! c) = n - 1" if "c < length data" for c
    using that by (simp add: pow_def len_ps)
  have uniform: "\<forall>xs\<in>set rows. length xs = n - 1"
  proof
    fix xs assume "xs \<in> set rows"
    then obtain c where c: "c < length rows" "xs = rows ! c"
      by (auto simp: in_set_conv_nth)
    with len_rows have "c < length data" by simp
    with c(2) show "length xs = n - 1"
      by (simp add: row_c len_pow_c)
  qed
  have sum_pow: "sum_list (pow ! c) = in_band_power freq_bands freqs (ps ! c)"
    if "c < length data" for c
  proof -
    have "sum_list (pow ! c)
        = (\<Sum>j\<leftarrow>[1..<n]. np_sum (select (map (\<lambda>i. i = j) idx) (ps ! c)))"
      using that by (simp add: pow_def len_ps)
    also have "\<dots> = np_sum (select (map (\<lambda>i. 1 \<le> i \<and> i < n) idx) (ps ! c))"
      by (rule sum_bands_select)
    also have "\<dots> = in_band_power freq_bands freqs (ps ! c)"
      unfolding idx_def n_def in_band_power_def in_band_mask [OF fb(2) fb(1)] ..
    finally show ?thesis .
  qed
  have slice: "sum_list (channel_slice (n - 1) c (concat rows))
          = (if nrm then in_band_power freq_bands freqs (ps ! c) / np_sum (ps ! c)
             else in_band_power freq_bands freqs (ps ! c))"
    if "c < length data" for c
  proof -
    have "channel_slice (n - 1) c (concat rows) = rows ! c"
      using uniform that len_rows by (intro channel_slice_concat) simp_all
    then show ?thesis
      using that by (simp add: row_c sum_list_divide sum_pow)
  qed
  have "length (concat rows) = length data * (n - 1)"
    using length_concat_uniform [OF uniform] len_rows by simp
  with result slice show ?thesis
    unfolding n_def by blast
qed


text \<open>
  Claim C3, as stated: with \<open>normalize=True\<close> the band values of each channel sum to 1.
  With unit power at 0 Hz and at 1 Hz and the single band \<open>[0.5, 4)\<close>, the output has the
  claimed length 1 but its value is \<open>1/2\<close>: the divisor counts the power at 0 Hz, which
  lies below the first band.
\<close>

theorem band_power_sum_counterexample:
  "\<not> band_powers_as_claimed 1 2
       (compute_power_spectrum_freq_bands (const_spectrum [1, 1] [0, 1]) 2 [[0, 1]]
          [1 / 2, 4] True)"
  by (simp add: band_powers_as_claimed_def compute_power_spectrum_freq_bands_def
      const_spectrum_def np_digitize_def select_def divide_rows_def np_sum_def ravel_def
      channel_slice_def)

theorem band_power_length_and_fraction_witness:
  "compute_power_spectrum_freq_bands (const_spectrum [1, 1] [0, 1]) 2 [[0, 1]]
     [1 / 2, 4] True = Inr [1 / 2]
   \<and> compute_power_spectrum_freq_bands (const_spectrum [1, 1] [0, 1]) 2 [[0, 1]]
     [1 / 2, 4] False = Inr [1]"
proof -
  have psd: "const_spectrum [1, 1] [0, 1] 2 [[0, 1]] = ([[1, 1]], [0, 1])"
    by (simp add: const_spectrum_def)
  have ok: "spectrum_ok [[0, 1]] ([[1, 1]], [0, 1])"
    by (simp add: spectrum_ok_def)
  have fb: "[1 / 2, 4] \<noteq> ([] :: real list)" "sorted [1 / 2, 4 :: real]"
    by simp_all
  have frac: "in_band_power [1 / 2, 4] [0, 1] [1, 1] = 1" "np_sum [1, 1] = 2"
    by (simp_all add: in_band_power_def select_def np_sum_def)
  have single: "out = [sum_list (channel_slice 1 0 out)]"
    if "length out = 1" for out :: "real list"
  proof -
    from that obtain x where "out = [x]"
      by (cases out) auto
    then show ?thesis by (simp add: channel_slice_def)
  qed
  from band_power_length_and_fraction [where power_spectrum = "const_spectrum [1, 1] [0, 1]"
      and sfreq = 2 and data = "[[0, 1]]" and nrm = True, OF psd ok fb]
  obtain out where out: "compute_power_spectrum_freq_bands (const_spectrum [1, 1] [0, 1]) 2
        [[0, 1]] [1 / 2, 4] True = Inr out"
      "length out = 1" "sum_list (channel_slice 1 0 out) = 1 / 2"
    using frac by auto
  from band_power_length_and_fraction [where power_spectrum = "const_spectrum [1, 1] [0, 1]"
      and sfreq = 2 and data = "[[0, 1]]" and nrm = False, OF psd ok fb]
  obtain out' where out': "compute_power_spectrum_freq_bands (const_spectrum [1, 1] [0, 1]) 2
        [[0, 1]] [1 / 2, 4] False = Inr out'"
      "length out' = 1" "sum_list (channel_slice 1 0 out') = 1"
    using frac by auto
  have "out = [1 / 2]"
    by (subst single [OF out(2)]) (simp only: out(3))
  moreover have "out' = [1]"
    by (subst single [OF out'(2)]) (simp only: out'(3))
  ultimately show ?thesis using out(1) out'(1) by simp
qed

subsection \<open>Hjorth mobility and complexity\<close>

lemma length_np_diff: "length (np_diff xs) = length xs - 1"
  by (induction xs rule: np_diff.induct) simp_all

lemma np_diff_nth: "Suc i < length xs \<Longrightarrow> np_diff xs ! i = xs ! Suc i - xs ! i"
proof (induction xs arbitrary: i rule: np_diff.induct)
  case (1 x y xs)
  then show ?case by (cases i) simp_all
qed simp_all

lemma np_diff_first_difference: "np_diff xs = first_difference xs"
  by (rule nth_equalityI) (simp_all add: first_difference_def length_np_diff np_diff_nth)

lemma sum_list_nth_sum: "sum_list (map f xs) = (\<Sum>i<length xs. f (xs ! i))"
proof -
  have "sum_list (map f xs) = (\<Sum>i = 0..<length (map f xs). map f xs ! i)"
    by (rule sum_list_sum_nth)
  then show ?thesis by (simp add: atLeast0LessThan)
qed

lemma np_std_unbiased_std: "np_std_ddof1 xs = unbiased_std xs"
  using sum_list_nth_sum [of "\<lambda>x. x" xs]
  by (simp add: np_std_ddof1_def np_var_ddof1_def np_mean_def np_sum_def unbiased_std_def
      sum_list_nth_sum Let_def)

lemma mobility_row:
  "compute_hjorth_mobility data = map mobility_over_padded data"
  by (rule nth_equalityI)
    (simp_all add: compute_hjorth_mobility_def np_insert0_def np_divide_def
      mobility_over_padded_def np_std_unbiased_std np_diff_first_difference)

text \<open>
  Claim C5, amended: per channel, \<open>compute_hjorth_mobility\<close> returns the unbiased standard
  deviation of the first difference of the start-zero-padded signal divided by the
  unbiased standard deviation of that same zero-padded signal (one sample longer than the
  channel), and \<open>compute_hjorth_complexity\<close> returns this mobility of the first difference
  divided by this mobility of the signal.
\<close>

theorem hjorth_parameters:
  "compute_hjorth_mobility data = map mobility_over_padded data
   \<and> compute_hjorth_complexity data
       = map (\<lambda>row. mobility_over_padded (first_difference (0 # row))
                     / mobility_over_padded row) data"
proof
  show "compute_hjorth_mobility data = map mobility_over_padded data"
    by (rule mobility_row)
  show "compute_hjorth_complexity data
       = map (\<lambda>row. mobility_over_padded (first_difference (0 # row))
                     / mobility_over_padded row) data"
    by (rule nth_equalityI)
      (simp_all add: compute_hjorth_complexity_def mobility_row np_insert0_def np_divide_def
        np_diff_first_difference)
qed

lemma std_13: "unbiased_std [1, 3] = sqrt 2"
  by (simp add: unbiased_std_def lessThan_Suc numeral_2_eq_2 power2_eq_square)

lemma std_013: "unbiased_std [0, 1, 3] = sqrt (7 / 3)"
  by (simp add: unbiased_std_def lessThan_Suc numeral_3_eq_3 power2_eq_square field_simps)

lemma std_12: "unbiased_std [1, 2] = sqrt (1 / 2)"
  by (simp add: unbiased_std_def lessThan_Suc numeral_2_eq_2 power2_eq_square field_simps)

lemma fd_013: "first_difference [0, 1, 3] = [1, 2]"
  by (simp add: first_difference_def upt_conv_Cons)

text \<open>
  Claim C5, as stated: the divisor of the mobility is the unbiased standard deviation of
  the signal. For the channel \<open>[1, 3]\<close> the kernel divides by the deviation \<open>sqrt (7/3)\<close> of
  \<open>[0, 1, 3]\<close> and returns \<open>sqrt (3/14)\<close>; dividing by the deviation \<open>sqrt 2\<close> of the signal
  would give \<open>1/2\<close>.
\<close>

theorem hjorth_mobility_counterexample:
  "compute_hjorth_mobility [[1, 3]] \<noteq> map mobility_over_signal [[1, 3]]"
proof -
  have code: "compute_hjorth_mobility [[1, 3]] = [sqrt (3 / 14)]"
    by (simp add: mobility_row mobility_over_padded_def fd_013 std_12 std_013
        real_sqrt_divide [symmetric])
  have claim: "map mobility_over_signal [[1, 3]] = [sqrt (1 / 4)]"
    by (simp add: mobility_over_signal_def fd_013 std_12 std_13 real_sqrt_divide [symmetric])
  show ?thesis
    unfolding code claim by simp
qed

subsection \<open>The guard of the Hurst exponent\<close>















subsection \<open>Decorrelation time\<close>

lemma length_autocorr_counts: "length (autocorr_counts n) = 2 * n - 1"
  by (simp add: autocorr_counts_def Let_def)

lemma autocorr_counts_nth:
  assumes "k < 2 * n - 1"
  shows "autocorr_counts n ! k = max 1 (int n - 1 - \<bar>int k - (int n - 1)\<bar>)"
proof -
  define m where "m = int n - 1"
  from assms have "- m + int k \<le> m" unfolding m_def by linarith
  then have lag: "[- m..m] ! k = - m + int k"
    by (rule nth_upto)
  from assms have len: "k < length [- m..m]" unfolding m_def by simp
  have "autocorr_counts n ! k = (if m - \<bar>[- m..m] ! k\<bar> \<le> 0 then 1 else m - \<bar>[- m..m] ! k\<bar>)"
    using len by (simp add: autocorr_counts_def Let_def m_def)
  also have "\<dots> = max 1 (m - \<bar>int k - m\<bar>)"
    unfolding lag by (simp add: max_def)
  finally show ?thesis by (simp add: m_def)
qed

lemma autocorr_counts_ge_1: "c \<in> set (autocorr_counts n) \<Longrightarrow> 1 \<le> c"
  by (auto simp: autocorr_counts_def Let_def)

lemma first_true_props:
  "True \<in> set bs \<Longrightarrow>
     first_true bs < length bs \<and> bs ! first_true bs \<and> (\<forall>k<first_true bs. \<not> bs ! k)"
proof (induction bs)
  case Nil
  then show ?case by simp
next
  case (Cons b bs)
  show ?case
  proof (cases b)
    case True
    then show ?thesis by simp
  next
    case False
    with Cons.prems have "True \<in> set bs" by auto
    then have IH: "first_true bs < length bs" "bs ! first_true bs"
      "\<forall>k<first_true bs. \<not> bs ! k"
      using Cons.IH by simp_all
    have "\<not> (b # bs) ! k" if "k < Suc (first_true bs)" for k
      using that False IH(3) by (cases k) simp_all
    with False IH show ?thesis by simp
  qed
qed

lemma length_fftconvolve_full:
  "x \<noteq> [] \<Longrightarrow> y \<noteq> [] \<Longrightarrow> length (fftconvolve_full x y) = length x + length y - 1"
  by (simp add: fftconvolve_full_def)

lemma length_unbiased_autocorr: "length (unbiased_autocorr x) = 2 * length x - 1"
  by (cases "x = []")
    (simp_all add: unbiased_autocorr_def np_divide_def length_autocorr_counts
      fftconvolve_full_def Let_def)

lemma unbiased_autocorr_nth:
  assumes "k < 2 * length x - 1"
  shows "unbiased_autocorr x ! k
    = fftconvolve_full x (rev x) ! k / real_of_int (autocorr_counts (length x) ! k)"
proof -
  from assms have "x \<noteq> []" by auto
  with assms show ?thesis
    by (simp add: unbiased_autocorr_def np_divide_def Let_def length_autocorr_counts
        length_fftconvolve_full)
qed

lemma length_autocorr_half: "length (autocorr_half row) = length row"
  by (cases "row = []") (auto simp: autocorr_half_def length_unbiased_autocorr)

lemma rev_nth_lag:
  assumes "l \<le> i" "i < length x"
  shows "rev x ! (length x - 1 + l - i) = x ! (i - l)"
proof -
  from assms have "length x - 1 + l - i < length x" by linarith
  then have "rev x ! (length x - 1 + l - i) = x ! (length x - Suc (length x - 1 + l - i))"
    by (rule rev_nth)
  moreover from assms have "length x - Suc (length x - 1 + l - i) = i - l" by linarith
  ultimately show ?thesis by (simp only:)
qed

lemma convolve_at_lag:
  assumes "l < length x"
  shows "fftconvolve_full x (rev x) ! (length x - 1 + l)
    = (\<Sum>i = 0..<length x - l. x ! (i + l) * x ! i)"
proof -
  define n where "n = length x"
  define k where "k = n - 1 + l"
  from assms have n: "l < n" "x \<noteq> []" by (auto simp: n_def)
  then have k: "k < n + n - 1" unfolding k_def by linarith
  have "fftconvolve_full x (rev x) ! k
      = map (\<lambda>k. \<Sum>i\<leftarrow>[0..<n]. if i \<le> k \<and> k - i < n then x ! i * rev x ! (k - i) else 0)
          [0..<n + n - 1] ! k"
    using n by (simp add: fftconvolve_full_def n_def)
  also have "\<dots> = (\<Sum>i\<leftarrow>[0..<n]. if i \<le> k \<and> k - i < n then x ! i * rev x ! (k - i) else 0)"
    using k by (simp cong: if_cong)
  also have "\<dots> = (\<Sum>i = 0..<n. if i \<le> k \<and> k - i < n then x ! i * rev x ! (k - i) else 0)"
    by (simp add: interv_sum_list_conv_sum_set_nat)
  also have "\<dots> = (\<Sum>i = 0..<n. if l \<le> i then x ! i * x ! (i - l) else 0)"
  proof (rule sum.cong)
    fix i assume "i \<in> {0..<n}"
    then have i: "i < n" by simp
    show "(if i \<le> k \<and> k - i < n then x ! i * rev x ! (k - i) else 0)
        = (if l \<le> i then x ! i * x ! (i - l) else 0)"
    proof (cases "l \<le> i")
      case True
      with i have "i \<le> k" "k - i < n" unfolding k_def by linarith+
      moreover from True i have "rev x ! (k - i) = x ! (i - l)"
        unfolding k_def n_def by (intro rev_nth_lag) simp_all
      ultimately show ?thesis using True by simp
    next
      case False
      with i have "\<not> k - i < n" unfolding k_def by linarith
      with False show ?thesis by simp
    qed
  qed simp
  also have "\<dots> = (\<Sum>i = l..<n. x ! i * x ! (i - l))"
    using n by (intro sum.mono_neutral_cong_right) auto
  also have "\<dots> = (\<Sum>i = 0 + l..<(n - l) + l. x ! i * x ! (i - l))"
    using n by simp
  also have "\<dots> = (\<Sum>i = 0..<n - l. x ! (i + l) * x ! (i + l - l))"
    by (rule sum.shift_bounds_nat_ivl)
  finally show ?thesis by (simp add: n_def k_def)
qed


lemma autocorr_half_nth:
  assumes "l < length row"
  shows "autocorr_half row ! l
    = (\<Sum>i = 0..<length row - l. row ! (i + l) * row ! i)
        / real_of_int (max 1 (int (length row) - 1 - int l))"
proof -
  define n where "n = length row"
  from assms have k: "n - 1 + l < 2 * n - 1" unfolding n_def by linarith
  have "autocorr_half row ! l = unbiased_autocorr row ! (n - 1 + l)"
    using k by (simp add: autocorr_half_def length_unbiased_autocorr n_def)
  also have "\<dots> = fftconvolve_full row (rev row) ! (n - 1 + l)
      / real_of_int (autocorr_counts n ! (n - 1 + l))"
    using k unfolding n_def by (rule unbiased_autocorr_nth)
  also have "autocorr_counts n ! (n - 1 + l)
      = max 1 (int n - 1 - \<bar>int (n - 1 + l) - (int n - 1)\<bar>)"
    using k by (rule autocorr_counts_nth)
  also have "\<bar>int (n - 1 + l) - (int n - 1)\<bar> = int l"
    using assms unfolding n_def by linarith
  also have "fftconvolve_full row (rev row) ! (n - 1 + l)
      = (\<Sum>i = 0..<n - l. row ! (i + l) * row ! i)"
    using assms unfolding n_def by (rule convolve_at_lag)
  finally show ?thesis by (simp add: n_def)
qed

lemma decorr_time_row:
  "compute_decorr_time sfreq data ! j =
     (if \<exists>v\<in>set (autocorr_half (data ! j)). v \<le> 0
      then real (first_true (map (\<lambda>v. v \<le> 0) (autocorr_half (data ! j)))) / sfreq
      else - 1)"
  if "j < length data"
proof -
  have "True \<in> set (map (\<lambda>v. v \<le> 0) half) \<longleftrightarrow> (\<exists>v\<in>set half. v \<le> 0)"
    for half :: "real list"
    by auto
  then show ?thesis
    using that by (simp add: compute_decorr_time_def np_argmax_def Let_def)
qed

text \<open>
  Claim C8: for every channel, \<open>compute_decorr_time\<close> returns the index of the first
  non-positive value of the non-negative-lag half of the unbiased autocorrelation divided
  by the sampling rate, or \<open>-1\<close> when every value of that half is positive. Entry \<open>l\<close> of
  that half is the lag-\<open>l\<close> product sum \<open>\<Sum> x[i + l] * x[i]\<close> divided by the count
  \<open>n - 1 - l\<close> clamped to at least 1; all \<open>2n - 1\<close> normalisation counts are
  \<open>max(1, n - 1 - |lag|)\<close>, so none of them is zero.
\<close>

theorem decorr_time_first_nonpositive:
  "length (compute_decorr_time sfreq data) = length data
   \<and> (\<forall>j<length data.
        if \<exists>v\<in>set (autocorr_half (data ! j)). v \<le> 0
        then \<exists>i<length (data ! j).
               autocorr_half (data ! j) ! i \<le> 0
               \<and> (\<forall>k<i. 0 < autocorr_half (data ! j) ! k)
               \<and> compute_decorr_time sfreq data ! j = real i / sfreq
        else compute_decorr_time sfreq data ! j = - 1)
   \<and> (\<forall>j<length data. \<forall>l<length (data ! j).
        autocorr_half (data ! j) ! l
          = (\<Sum>i = 0..<length (data ! j) - l. data ! j ! (i + l) * data ! j ! i)
              / real_of_int (max 1 (int (length (data ! j)) - 1 - int l)))
   \<and> (\<forall>c\<in>set (autocorr_counts n). 1 \<le> c)
   \<and> (\<forall>k<2 * n - 1. autocorr_counts n ! k = max 1 (int n - 1 - \<bar>int k - (int n - 1)\<bar>))"
proof (intro conjI allI impI)
  show "length (compute_decorr_time sfreq data) = length data"
    by (simp add: compute_decorr_time_def)
next
  fix j assume j: "j < length data"
  define half where "half = autocorr_half (data ! j)"
  define zc where "zc = map (\<lambda>v. v \<le> 0) half"
  show "if \<exists>v\<in>set (autocorr_half (data ! j)). v \<le> 0
        then \<exists>i<length (data ! j).
               autocorr_half (data ! j) ! i \<le> 0
               \<and> (\<forall>k<i. 0 < autocorr_half (data ! j) ! k)
               \<and> compute_decorr_time sfreq data ! j = real i / sfreq
        else compute_decorr_time sfreq data ! j = - 1"
  proof (cases "\<exists>v\<in>set half. v \<le> 0")
    case True
    then have "True \<in> set zc" by (auto simp: zc_def)
    then have ft: "first_true zc < length zc" "zc ! first_true zc"
      "\<forall>k<first_true zc. \<not> zc ! k"
      using first_true_props [of zc] by simp_all
    have len: "length zc = length (data ! j)"
      by (simp add: zc_def half_def length_autocorr_half)
    from ft(1) ft(2) have "half ! first_true zc \<le> 0"
      by (simp add: zc_def)
    moreover have "0 < half ! k" if "k < first_true zc" for k
    proof -
      from that ft(1) have "k < length half" by (simp add: zc_def)
      moreover from that ft(3) have "\<not> zc ! k" by simp
      ultimately show ?thesis by (simp add: zc_def)
    qed
    moreover have "compute_decorr_time sfreq data ! j = real (first_true zc) / sfreq"
      using True j by (simp add: decorr_time_row half_def zc_def)
    ultimately show ?thesis
      using True ft(1) len unfolding half_def [symmetric] by auto
  next
    case False
    then show ?thesis
      using j by (simp add: decorr_time_row half_def)
  qed
next
  fix j l assume "j < length data" "l < length (data ! j)"
  then show "autocorr_half (data ! j) ! l
          = (\<Sum>i = 0..<length (data ! j) - l. data ! j ! (i + l) * data ! j ! i)
              / real_of_int (max 1 (int (length (data ! j)) - 1 - int l))"
    by (intro autocorr_half_nth)
next
  show "\<forall>c\<in>set (autocorr_counts n). 1 \<le> c"
    by (simp add: autocorr_counts_ge_1)
next
  fix k assume "k < 2 * n - 1"
  then show "autocorr_counts n ! k = max 1 (int n - 1 - \<bar>int k - (int n - 1)\<bar>)"
    by (rule autocorr_counts_nth)
qed


lemma autocorr_half_example:
  "autocorr_half [1, - 2, 3] = [7, - 8, 3]" "autocorr_half [1, 2, 3] = [7, 8, 3]"
  by code_simp+

theorem decorr_time_first_nonpositive_witness:
  "compute_decorr_time 2 [[1, - 2, 3], [1, 2, 3]] = [1 / 2, - 1]
   \<and> autocorr_half [1, - 2, 3] = [7, - 8, 3]
   \<and> autocorr_half [1, 2, 3] = [7, 8, 3]
   \<and> autocorr_counts 3 ! 2 = 2 \<and> autocorr_counts 3 ! 4 = 1"
proof -
  define data :: matrix where "data = [[1, - 2, 3], [1, 2, 3]]"
  define d where "d = compute_decorr_time 2 data"
  define P where "P = (\<lambda>j. if \<exists>v\<in>set (autocorr_half (data ! j)). v \<le> 0
        then \<exists>i<length (data ! j).
               autocorr_half (data ! j) ! i \<le> 0
               \<and> (\<forall>k<i. 0 < autocorr_half (data ! j) ! k)
               \<and> d ! j = real i / 2
        else d ! j = - 1)"
  note inst = decorr_time_first_nonpositive [of 2 data 3, folded d_def]
  from inst have len: "length d = length data"
    by (rule conjunct1)
  from inst have all: "\<forall>j<length data. P j"
    unfolding P_def by (elim conjE)
  from inst have counts: "\<forall>k<2 * 3 - 1. autocorr_counts 3 ! k
      = max 1 (int 3 - 1 - \<bar>int k - (int 3 - 1)\<bar>)"
    by (elim conjE)
  have "P 0" "P 1"
    using all by (simp_all add: data_def)
  then have rows: "\<exists>i<3. [7, - 8, 3 :: real] ! i \<le> 0 \<and> d ! 0 = real i / 2" "d ! 1 = - 1"
    unfolding P_def data_def by (auto simp: autocorr_half_example)
  from rows(1) have "d ! 0 = 1 / 2"
    by (auto simp: less_Suc_eq numeral_3_eq_3)
  with rows(2) len have "d = [1 / 2, - 1]"
    by (intro nth_equalityI) (auto simp: less_Suc_eq numeral_2_eq_2 data_def)
  moreover from counts have "autocorr_counts 3 ! 2 = 2" "autocorr_counts 3 ! 4 = 1"
    by simp_all
  ultimately show ?thesis
    by (simp add: d_def data_def autocorr_half_example)
qed

subsection \<open>Wavelet coefficient energy\<close>

lemma approx_at_shift: "approx_at f (fst (f x)) k = approx_at f x (Suc k)"
  by (induction k) simp_all

lemma detail_at_shift: "0 < i \<Longrightarrow> detail_at f (fst (f x)) i = detail_at f x (Suc i)"
proof -
  assume "0 < i"
  then obtain k where "i = Suc k" by (cases i) auto
  then show ?thesis
    using approx_at_shift [of f x k] by (simp add: detail_at_def)
qed

lemma wavedec_loop_levels:
  "wavedec_loop f k x coeffs_list
     = (approx_at f x k, coeffs_list @ map (detail_at f x) [1..<Suc k])"
proof (induction k arbitrary: x coeffs_list)
  case 0
  then show ?case by simp
next
  case (Suc k)
  have "map (detail_at f (fst (f x))) [Suc 0..<Suc k]
      = map (detail_at f x) [Suc (Suc 0)..<Suc (Suc k)]"
  proof -
    have "map (detail_at f (fst (f x))) [Suc 0..<Suc k]
        = map (\<lambda>i. detail_at f x (Suc i)) [Suc 0..<Suc k]"
      by (rule map_cong [OF refl]) (auto simp: detail_at_shift simp del: upt_Suc)
    also have "\<dots> = map (detail_at f x) (map Suc [Suc 0..<Suc k])"
      by simp
    finally show ?thesis
      by (simp only: map_Suc_upt)
  qed
  moreover have "[Suc 0..<Suc (Suc k)] = Suc 0 # [Suc (Suc 0)..<Suc (Suc k)]"
    by (simp add: upt_conv_Cons)
  moreover have "snd (f x) = detail_at f x (Suc 0)"
    by (simp add: detail_at_def)
  ultimately show ?case
    by (simp add: Suc.IH split_beta Let_def approx_at_shift del: upt_Suc)
qed

lemma wavedec_levels:
  "wavedec w x n = approx_at (dwt w) x n # rev (map (detail_at (dwt w) x) [1..<Suc n])"
  by (simp add: wavedec_def wavedec_loop_levels del: upt_Suc)

lemma wavedec_nth_from_end:
  assumes "l < n"
  shows "wavedec w x n ! (n - l) = detail_at (dwt w) x (Suc l)"
proof -
  define ds where "ds = map (detail_at (dwt w) x) [1..<Suc n]"
  have len: "length ds = n" by (simp add: ds_def)
  from assms obtain k where k: "n - l = Suc k" "k < n" "n - Suc k = l"
    by (cases "n - l") auto
  have "wavedec w x n ! (n - l) = rev ds ! k"
    by (simp add: wavedec_levels ds_def k(1) del: upt_Suc)
  also have "\<dots> = ds ! (n - Suc k)"
    using k(2) len by (simp add: rev_nth)
  also have "\<dots> = detail_at (dwt w) x (Suc l)"
    using assms unfolding k(3) ds_def by (simp del: upt_Suc)
  finally show ?thesis .
qed

lemma energy_np_sum: "np_sum (map (\<lambda>c. c\<^sup>2) cs) = energy cs"
  by (simp add: np_sum_def energy_def)

lemma row_energies:
  "map (\<lambda>l. np_sum (map (\<lambda>c. c\<^sup>2) (wavedec w row n ! (n - l)))) [0..<n]
     = energies_finest_first (dwt w) n row"
proof -
  have "map (\<lambda>l. np_sum (map (\<lambda>c. c\<^sup>2) (wavedec w row n ! (n - l)))) [0..<n]
      = map (\<lambda>l. energy (detail_at (dwt w) row (Suc l))) [0..<n]"
    by (rule map_cong) (simp_all add: wavedec_nth_from_end energy_np_sum)
  also have "\<dots> = map (\<lambda>k. energy (detail_at (dwt w) row k)) (map Suc [0..<n])"
    by simp
  also have "map Suc [0..<n] = [1..<Suc n]"
    by (simp only: map_Suc_upt) simp
  finally show ?thesis
    by (simp add: energies_finest_first_def)
qed

lemma wavelet_energy_rows:
  assumes "Wavelet pywt wavelet_name = Inr w"
  shows "compute_wavelet_coef_energy pywt data wavelet_name
    = Inr (ravel (map (energies_finest_first (dwt w)
        (min (dwt_max_level pywt (case data of [] \<Rightarrow> 0 | row # _ \<Rightarrow> length row)
               (dec_len w)) 6)) data))"
  using assms by (simp add: compute_wavelet_coef_energy_def Let_def row_energies)

text \<open>
  Claim C4, amended: \<open>compute_wavelet_coef_energy\<close> decomposes each channel to the level
  \<open>levdec = min(dwt_max_level(n_times, dec_len), 6)\<close> and returns, per channel, the
  \<open>levdec\<close> sums of squared detail coefficients ordered from the finest level (level 1)
  to the coarsest (level \<open>levdec\<close>): entry \<open>l\<close> reads \<open>coefs[levdec - l]\<close>, the detail
  coefficients of level \<open>l + 1\<close>. The approximation coefficients \<open>coefs[0]\<close> are not used.
\<close>

theorem wavelet_energy_finest_first:
  assumes "Wavelet pywt wavelet_name = Inr w"
    and "levdec = min (dwt_max_level pywt (case data of [] \<Rightarrow> 0 | row # _ \<Rightarrow> length row)
                        (dec_len w)) 6"
  shows "compute_wavelet_coef_energy pywt data wavelet_name
           = Inr (ravel (map (energies_finest_first (dwt w) levdec) data))
         \<and> length (ravel (map (energies_finest_first (dwt w) levdec) data))
           = length data * levdec"
proof
  show "compute_wavelet_coef_energy pywt data wavelet_name
           = Inr (ravel (map (energies_finest_first (dwt w) levdec) data))"
    unfolding assms(2) using assms(1) by (rule wavelet_energy_rows)
  have "\<forall>xs\<in>set (map (energies_finest_first (dwt w) levdec) data). length xs = levdec"
    by (simp add: energies_finest_first_def)
  then have "length (concat (map (energies_finest_first (dwt w) levdec) data))
      = length (map (energies_finest_first (dwt w) levdec) data) * levdec"
    by (induction data) simp_all
  then show "length (ravel (map (energies_finest_first (dwt w) levdec) data))
           = length data * levdec"
    by (simp add: ravel_def)
qed

lemma haar_levels:
  "detail_at haar_dwt [1, 0, 0, 0] (Suc 0) = [1 / sqrt 2, 0]"
  "detail_at haar_dwt [1, 0, 0, 0] (Suc (Suc 0)) = [1 / 2]"
  by (simp_all add: detail_at_def)

lemma haar_energies:
  "energies_finest_first haar_dwt 2 [1, 0, 0, 0] = [1 / 2, 1 / 4]"
  "energies_coarsest_first haar_dwt 2 [1, 0, 0, 0] = [1 / 4, 1 / 2]"
  by (simp_all add: energies_finest_first_def energies_coarsest_first_def haar_levels energy_def
      upt_conv_Cons power_divide)

lemma haar_max_level: "n = 4 \<Longrightarrow> dwt_max_level haar_pywt n 2 = 2"
  by (simp add: haar_pywt_def compute_floorlog)

lemma haar_wavelet: "Wavelet haar_pywt ''haar'' = Inr \<lparr>dec_len = 2, dwt = haar_dwt\<rparr>"
  by (simp add: haar_pywt_def)

text \<open>
  Claim C4, as stated: the sums are ordered from the coarsest level to the finest. For the
  Haar wavelet and the channel \<open>[1, 0, 0, 0]\<close> (two levels) the detail energies are \<open>1/2\<close>
  at level 1 and \<open>1/4\<close> at level 2; the kernel returns \<open>[1/2, 1/4]\<close>, not \<open>[1/4, 1/2]\<close>.
\<close>

theorem wavelet_energy_order_counterexample:
  "compute_wavelet_coef_energy haar_pywt [[1, 0, 0, 0]] ''haar''
     \<noteq> Inr (ravel (map (energies_coarsest_first haar_dwt (min (dwt_max_level haar_pywt 4 2) 6))
                     [[1, 0, 0, 0]]))"
proof -
  have "compute_wavelet_coef_energy haar_pywt [[1, 0, 0, 0]] ''haar'' = Inr [1 / 2, 1 / 4]"
    unfolding wavelet_energy_rows [OF haar_wavelet]
    by (simp add: haar_max_level haar_energies(1) ravel_def)
  then show ?thesis
    by (simp add: haar_max_level haar_energies(2) ravel_def)
qed

theorem wavelet_energy_finest_first_witness:
  "compute_wavelet_coef_energy haar_pywt [[1, 0, 0, 0]] ''haar'' = Inr [1 / 2, 1 / 4]
   \<and> energy (detail_at haar_dwt [1, 0, 0, 0] 1) = 1 / 2
   \<and> energy (detail_at haar_dwt [1, 0, 0, 0] 2) = 1 / 4"
proof -
  have lev: "(2::nat) = min (dwt_max_level haar_pywt
        (case [[1, 0, 0, 0 :: real]] of [] \<Rightarrow> 0 | row # _ \<Rightarrow> length row)
        (dec_len \<lparr>dec_len = 2, dwt = haar_dwt\<rparr>)) 6"
    by (simp add: haar_max_level)
  have "energy (detail_at haar_dwt [1, 0, 0, 0] 1) = 1 / 2"
    "energy (detail_at haar_dwt [1, 0, 0, 0] 2) = 1 / 4"
    using haar_levels by (simp_all add: energy_def power_divide numeral_2_eq_2)
  with wavelet_energy_finest_first [OF haar_wavelet lev] haar_energies(1) show ?thesis
    by (simp add: ravel_def)
qed

subsection \<open>Sample entropy\<close>



lemma sampen_m_s_empty: "sampen_m_s [] = Inl ZeroDivisionError"
  by (simp add: sampen_m_s_def)

































end
